theory Spec2Isabelle
  imports Main
begin

section \<open>The task editor: values, schema and form state\<close>

text \<open>
  The editor is the React component \<open>Render\<close>. Its editable fields hold JavaScript
  values: a string, \<open>null\<close> or \<open>undefined\<close>.
\<close>

datatype jsval = JUndefined | JNull | JStr string

fun is_string :: "jsval \<Rightarrow> bool" where
  "is_string (JStr s) = True"
| "is_string JUndefined = False"
| "is_string JNull = False"

text \<open>\<open>a ?? b\<close>: the right operand replaces \<open>null\<close> and \<open>undefined\<close> only.\<close>

fun nullish_coalescing :: "jsval \<Rightarrow> jsval \<Rightarrow> jsval" where
  "nullish_coalescing JUndefined b = b"
| "nullish_coalescing JNull b = b"
| "nullish_coalescing (JStr s) b = JStr s"

text \<open>\<open>a || b\<close>: the right operand replaces every falsy value, the empty string included.\<close>

fun logical_or :: "jsval \<Rightarrow> jsval \<Rightarrow> jsval" where
  "logical_or JUndefined b = b"
| "logical_or JNull b = b"
| "logical_or (JStr s) b = (if s = [] then b else JStr s)"

text \<open>\<open>task?.f\<close>: \<open>undefined\<close> when there is no task.\<close>

definition optional_chaining :: "'a option \<Rightarrow> ('a \<Rightarrow> jsval) \<Rightarrow> jsval" where
  "optional_chaining t f = (case t of None \<Rightarrow> JUndefined | Some x \<Rightarrow> f x)"

text \<open>
  The entity handed to the component (\<open>GetTaskFnDataType\<close>): its identity and its editable
  fields. The provenance fields are only displayed and are left out.
\<close>

record GetTaskFnDataType =
  task_id :: string
  task_title :: jsval
  task_status :: jsval
  task_description :: jsval

record FormData =
  title :: jsval
  status :: jsval
  description :: jsval

record Props =
  task :: "GetTaskFnDataType option"
  canUpdate :: bool
  canCreate :: bool
  canDelete :: bool

subsection \<open>TaskSchema\<close>

text \<open>
  The schema is \<open>z.object({title: z.string().nonempty(), status: z.nativeEnum(TaskStatus),
  description: z.string().optional()})\<close>. The enumeration \<open>TaskStatus\<close> is declared outside
  the component; every definition that needs it takes the list of its members as its first
  argument.
\<close>

datatype ZodIssueCode = invalid_type | too_small | invalid_enum_value

type_synonym ZodIssue = "string \<times> ZodIssueCode"

fun z_string_nonempty :: "jsval \<Rightarrow> ZodIssueCode list" where
  "z_string_nonempty (JStr s) = (if 1 \<le> length s then [] else [too_small])"
| "z_string_nonempty JUndefined = [invalid_type]"
| "z_string_nonempty JNull = [invalid_type]"

fun z_nativeEnum :: "string list \<Rightarrow> jsval \<Rightarrow> ZodIssueCode list" where
  "z_nativeEnum TaskStatus (JStr s) = (if s \<in> set TaskStatus then [] else [invalid_enum_value])"
| "z_nativeEnum TaskStatus JUndefined = [invalid_type]"
| "z_nativeEnum TaskStatus JNull = [invalid_type]"

fun z_string_optional :: "jsval \<Rightarrow> ZodIssueCode list" where
  "z_string_optional JUndefined = []"
| "z_string_optional (JStr s) = []"
| "z_string_optional JNull = [invalid_type]"

definition TaskSchema_issues :: "string list \<Rightarrow> FormData \<Rightarrow> ZodIssue list" where
  "TaskSchema_issues TaskStatus d =
     map (Pair ''title'') (z_string_nonempty (title d)) @
     map (Pair ''status'') (z_nativeEnum TaskStatus (status d)) @
     map (Pair ''description'') (z_string_optional (description d))"

text \<open>\<open>safeParse\<close>: the issues of every field on the left, the accepted draft on the right.\<close>

definition TaskSchema_safeParse :: "string list \<Rightarrow> FormData \<Rightarrow> ZodIssue list + FormData" where
  "TaskSchema_safeParse TaskStatus d =
     (if TaskSchema_issues TaskStatus d = [] then Inr d else Inl (TaskSchema_issues TaskStatus d))"

subsection \<open>Gateway, notifications and navigation\<close>

datatype GatewayCall =
    createTask FormData
  | updateTask string FormData
  | deleteTask string

datatype GatewayError = ValidationError | RemoteError | NotFoundError

datatype 'a Settled = Resolved 'a | Rejected GatewayError

datatype ToastVariant = default_variant | destructive

datatype Effect =
    Call GatewayCall
  | toast string ToastVariant
  | router_replace string
  | router_push string
  | router_back
  | Link_href string

fun is_gateway_call :: "Effect \<Rightarrow> bool" where
  "is_gateway_call (Call c) = True"
| "is_gateway_call (toast t v) = False"
| "is_gateway_call (router_replace u) = False"
| "is_gateway_call (router_push u) = False"
| "is_gateway_call router_back = False"
| "is_gateway_call (Link_href u) = False"

fun is_navigation :: "Effect \<Rightarrow> bool" where
  "is_navigation (Call c) = False"
| "is_navigation (toast t v) = False"
| "is_navigation (router_replace u) = True"
| "is_navigation (router_push u) = True"
| "is_navigation router_back = True"
| "is_navigation (Link_href u) = True"

fun is_success_notification :: "Effect \<Rightarrow> bool" where
  "is_success_notification (toast t v) = (v = default_variant)"
| "is_success_notification (Call c) = False"
| "is_success_notification (router_replace u) = False"
| "is_success_notification (router_push u) = False"
| "is_success_notification router_back = False"
| "is_success_notification (Link_href u) = False"

fun is_failure_notification :: "Effect \<Rightarrow> bool" where
  "is_failure_notification (toast t v) = (v = destructive)"
| "is_failure_notification (Call c) = False"
| "is_failure_notification (router_replace u) = False"
| "is_failure_notification (router_push u) = False"
| "is_failure_notification router_back = False"
| "is_failure_notification (Link_href u) = False"

definition count_effects :: "(Effect \<Rightarrow> bool) \<Rightarrow> Effect list \<Rightarrow> nat" where
  "count_effects P effs = length (filter P effs)"

section \<open>The component's state\<close>

text \<open>
  An asynchronous handler that has reached its \<open>await\<close> is suspended until the gateway
  answers; \<open>pending\<close> lists the suspended handlers.
\<close>

datatype Pending = awaiting_createTask | awaiting_updateTask | awaiting_deleteTask

text \<open>
  Modelled from the spec: the \<open>AlertDialog\<close> component is not among the sources.
  \<open>alertDialogOpen\<close> is its open state: the spec's "interstitial confirmation step that the
  user must explicitly accept", which stands between the user and the page while it is shown.

  The other fields are the component's own: \<open>fieldValues\<close>, \<open>fieldErrors\<close> and \<open>isSubmitted\<close>
  are the state of \<open>useForm\<close>, \<open>isSaving\<close> and \<open>isDeleting\<close> the two \<open>useState\<close> flags, and
  \<open>pending\<close> the suspended handlers.
\<close>

record RenderState =
  fieldValues :: FormData
  fieldErrors :: "ZodIssue list"
  isSubmitted :: bool
  isSaving :: bool
  isDeleting :: bool
  alertDialogOpen :: bool
  pending :: "Pending list"

datatype Lifecycle = Idle | Saving | Deleting

definition lifecycle :: "RenderState \<Rightarrow> Lifecycle" where
  "lifecycle s = (if isSaving s then Saving else if isDeleting s then Deleting else Idle)"

definition defaultValues :: "Props \<Rightarrow> FormData" where
  "defaultValues p =
     \<lparr> title = nullish_coalescing (optional_chaining (task p) task_title) (JStr ''''),
       status = logical_or (optional_chaining (task p) task_status) (JStr ''Todo''),
       description = nullish_coalescing (optional_chaining (task p) task_description) (JStr '''') \<rparr>"

definition mount :: "Props \<Rightarrow> RenderState" where
  "mount p =
     \<lparr> fieldValues = defaultValues p, fieldErrors = [], isSubmitted = False, isSaving = False,
       isDeleting = False, alertDialogOpen = False, pending = [] \<rparr>"

subsection \<open>What is rendered\<close>

datatype Control = not_rendered | rendered_disabled | rendered_enabled

definition enabled_unless :: "bool \<Rightarrow> Control" where
  "enabled_unless disabled = (if disabled then rendered_disabled else rendered_enabled)"

record View =
  saveButton :: Control
  deleteButton :: Control
  newButton :: Control
  titleInput :: Control
  statusSelect :: Control
  descriptionTextarea :: Control
  alertDialogContent :: bool

definition Render :: "Props \<Rightarrow> RenderState \<Rightarrow> View" where
  "Render p s =
     \<lparr> saveButton =
         (if (case task p of Some t \<Rightarrow> canUpdate p | None \<Rightarrow> canCreate p)
          then enabled_unless (isSaving s \<or> isDeleting s) else not_rendered),
       deleteButton =
         (if task p \<noteq> None \<and> canDelete p
          then enabled_unless (isSaving s \<or> isDeleting s) else not_rendered),
       newButton =
         (if task p \<noteq> None \<and> canCreate p
          then enabled_unless (isSaving s \<or> isDeleting s) else not_rendered),
       titleInput = enabled_unless (isSaving s),
       statusSelect = enabled_unless (isSaving s),
       descriptionTextarea = enabled_unless (isSaving s),
       alertDialogContent = (task p \<noteq> None \<and> canDelete p \<and> alertDialogOpen s) \<rparr>"

subsection \<open>Handlers\<close>

text \<open>
  \<open>onSubmit\<close> up to its \<open>await\<close>: \<open>setIsSaving(true)\<close>, then \<open>createTask(data)\<close> when there is
  no task and \<open>updateTask({id: task.id, ...data})\<close> otherwise.
\<close>

definition onSubmit_start :: "Props \<Rightarrow> FormData \<Rightarrow> RenderState \<Rightarrow> RenderState \<times> Effect list" where
  "onSubmit_start p data s =
     (case task p of
        None \<Rightarrow>
          (s\<lparr>isSaving := True, pending := pending s @ [awaiting_createTask]\<rparr>,
           [Call (createTask data)])
      | Some t \<Rightarrow>
          (s\<lparr>isSaving := True, pending := pending s @ [awaiting_updateTask]\<rparr>,
           [Call (updateTask (task_id t) data)]))"

text \<open>
  \<open>onSubmit\<close> from its \<open>await\<close> on: the rest of the \<open>try\<close> block when the call resolved, the
  \<open>catch\<close> block when it threw, and \<open>setIsSaving(false)\<close> after both.
\<close>

definition onSubmit_createTask_settled :: "string Settled \<Rightarrow> RenderState \<Rightarrow> RenderState \<times> Effect list" where
  "onSubmit_createTask_settled r s =
     (case r of
        Resolved newId \<Rightarrow>
          (s\<lparr>isSaving := False\<rparr>,
           [router_replace (''/tasks/'' @ newId), toast ''Task saved'' default_variant])
      | Rejected err \<Rightarrow>
          (s\<lparr>isSaving := False\<rparr>, [toast ''Error saving task'' destructive]))"

definition onSubmit_updateTask_settled :: "unit Settled \<Rightarrow> RenderState \<Rightarrow> RenderState \<times> Effect list" where
  "onSubmit_updateTask_settled r s =
     (case r of
        Resolved u \<Rightarrow> (s\<lparr>isSaving := False\<rparr>, [toast ''Task saved'' default_variant])
      | Rejected err \<Rightarrow>
          (s\<lparr>isSaving := False\<rparr>, [toast ''Error saving task'' destructive]))"

text \<open>
  \<open>form.handleSubmit(onSubmit)\<close> with the \<open>zodResolver\<close>: the draft is parsed first. When the
  schema rejects it, the issues are stored, \<open>onSubmit\<close> is not called and the form counts as
  submitted at once. When the schema accepts it, the errors are cleared and \<open>onSubmit\<close> is
  called with the parsed draft; the form counts as submitted when \<open>onSubmit\<close> has returned,
  that is when the gateway call has settled.
\<close>

definition handleSubmit :: "string list \<Rightarrow> Props \<Rightarrow> RenderState \<Rightarrow> RenderState \<times> Effect list" where
  "handleSubmit TaskStatus p s =
     (case TaskSchema_safeParse TaskStatus (fieldValues s) of
        Inl issues \<Rightarrow> (s\<lparr>fieldErrors := issues, isSubmitted := True\<rparr>, [])
      | Inr data \<Rightarrow> onSubmit_start p data (s\<lparr>fieldErrors := []\<rparr>))"

definition handleSubmit_returned :: "RenderState \<times> Effect list \<Rightarrow> RenderState \<times> Effect list" where
  "handleSubmit_returned r = ((fst r)\<lparr>isSubmitted := True\<rparr>, snd r)"

text \<open>
  The \<open>onChange\<close> of a field registered with \<open>useForm\<close>, with the default modes (validation on
  submit, re-validation on change): before the first submission nothing is validated; after
  it, the changed field is validated again and its error, and only its error, is replaced by
  the outcome.
\<close>

definition revalidated :: "string \<Rightarrow> ZodIssueCode list \<Rightarrow> RenderState \<Rightarrow> ZodIssue list" where
  "revalidated name codes s =
     (if isSubmitted s
      then filter (\<lambda>issue. fst issue \<noteq> name) (fieldErrors s) @ map (Pair name) codes
      else fieldErrors s)"

text \<open>
  The \<open>onClick\<close> of \<open>AlertDialogAction\<close> up to its \<open>await\<close>: \<open>setIsDeleting(true)\<close> and
  \<open>deleteTask(task.id)\<close>; the dialog closes on the click.
\<close>

definition onClick_Continue_start :: "GetTaskFnDataType \<Rightarrow> RenderState \<Rightarrow> RenderState \<times> Effect list" where
  "onClick_Continue_start t s =
     (s\<lparr>isDeleting := True, alertDialogOpen := False, pending := pending s @ [awaiting_deleteTask]\<rparr>,
      [Call (deleteTask (task_id t))])"

definition onClick_Continue_settled :: "unit Settled \<Rightarrow> RenderState \<Rightarrow> RenderState \<times> Effect list" where
  "onClick_Continue_settled r s =
     (case r of
        Resolved u \<Rightarrow>
          (s\<lparr>isDeleting := False\<rparr>,
           [toast ''Task deleted'' default_variant, router_push ''/tasks''])
      | Rejected err \<Rightarrow>
          (s\<lparr>isDeleting := False\<rparr>, [toast ''Error deleting task'' destructive]))"

subsection \<open>Events\<close>

text \<open>
  One event is one user action on a control, or the gateway settling a suspended call. A
  handler runs from its event to its next \<open>await\<close>, or to its end, without interruption, and
  the component is rendered again before the next event.

  A control takes an action only when it is rendered and enabled. The page takes no action
  while the confirmation dialog is shown, and the dialog's two buttons exist only then. The
  status can only be changed to a member of the enumeration, the items of the select.
  \<open>step\<close> is \<open>None\<close> when the event cannot happen in the state.
\<close>

datatype Event =
    submit_form
  | change_title string
  | change_status string
  | change_description string
  | click_Back
  | click_New
  | click_Delete
  | click_Cancel
  | click_Continue
  | createTask_settled "string Settled"
  | updateTask_settled "unit Settled"
  | deleteTask_settled "unit Settled"

definition page_takes :: "Props \<Rightarrow> RenderState \<Rightarrow> Control \<Rightarrow> bool" where
  "page_takes p s c = (c = rendered_enabled \<and> \<not> alertDialogContent (Render p s))"

text \<open>
  \<open>submit_form\<close> is the submit event of the form. \<open>onSubmit\<close> is bound to the form, not to the
  Save button, and tests neither a capability flag nor \<open>isSaving\<close> or \<open>isDeleting\<close>. The event
  comes from pressing Save, the form's only submit button, and from the Enter key in the
  title input, the form's only text input: with a Save button rendered, Enter acts as a press
  on it, so nothing is submitted while it is disabled; with no Save button rendered, Enter
  submits the form.
\<close>

definition form_submits :: "Props \<Rightarrow> RenderState \<Rightarrow> bool" where
  "form_submits p s =
     (page_takes p s (saveButton (Render p s)) \<or>
      (saveButton (Render p s) = not_rendered \<and> page_takes p s (titleInput (Render p s))))"

fun step :: "string list \<Rightarrow> Props \<Rightarrow> RenderState \<Rightarrow> Event \<Rightarrow> (RenderState \<times> Effect list) option" where
  "step TaskStatus p s submit_form =
     (if form_submits p s then Some (handleSubmit TaskStatus p s) else None)"
| "step TaskStatus p s (change_title v) =
     (if page_takes p s (titleInput (Render p s))
      then Some (s\<lparr>fieldValues := (fieldValues s)\<lparr>title := JStr v\<rparr>,
                   fieldErrors := revalidated ''title'' (z_string_nonempty (JStr v)) s\<rparr>, [])
      else None)"
| "step TaskStatus p s (change_status v) =
     (if page_takes p s (statusSelect (Render p s)) \<and> v \<in> set TaskStatus
      then Some (s\<lparr>fieldValues := (fieldValues s)\<lparr>status := JStr v\<rparr>,
                   fieldErrors := revalidated ''status'' (z_nativeEnum TaskStatus (JStr v)) s\<rparr>, [])
      else None)"
| "step TaskStatus p s (change_description v) =
     (if page_takes p s (descriptionTextarea (Render p s))
      then Some (s\<lparr>fieldValues := (fieldValues s)\<lparr>description := JStr v\<rparr>,
                   fieldErrors := revalidated ''description'' (z_string_optional (JStr v)) s\<rparr>, [])
      else None)"
| "step TaskStatus p s click_Back =
     (if page_takes p s rendered_enabled then Some (s, [router_back]) else None)"
| "step TaskStatus p s click_New =
     (if page_takes p s (newButton (Render p s)) then Some (s, [Link_href ''/tasks/new'']) else None)"
| "step TaskStatus p s click_Delete =
     (if page_takes p s (deleteButton (Render p s))
      then Some (s\<lparr>alertDialogOpen := True\<rparr>, []) else None)"
| "step TaskStatus p s click_Cancel =
     (if alertDialogContent (Render p s) then Some (s\<lparr>alertDialogOpen := False\<rparr>, []) else None)"
| "step TaskStatus p s click_Continue =
     (case task p of
        Some t \<Rightarrow>
          (if alertDialogContent (Render p s) then Some (onClick_Continue_start t s) else None)
      | None \<Rightarrow> None)"
| "step TaskStatus p s (createTask_settled r) =
     (if awaiting_createTask \<in> set (pending s)
      then Some (handleSubmit_returned
             (onSubmit_createTask_settled r (s\<lparr>pending := remove1 awaiting_createTask (pending s)\<rparr>)))
      else None)"
| "step TaskStatus p s (updateTask_settled r) =
     (if awaiting_updateTask \<in> set (pending s)
      then Some (handleSubmit_returned
             (onSubmit_updateTask_settled r (s\<lparr>pending := remove1 awaiting_updateTask (pending s)\<rparr>)))
      else None)"
| "step TaskStatus p s (deleteTask_settled r) =
     (if awaiting_deleteTask \<in> set (pending s)
      then Some (onClick_Continue_settled r (s\<lparr>pending := remove1 awaiting_deleteTask (pending s)\<rparr>))
      else None)"

text \<open>
  A run of events: the states after each event, and every effect in order. It is \<open>None\<close>
  when one of the events cannot happen.
\<close>

fun run :: "string list \<Rightarrow> Props \<Rightarrow> RenderState \<Rightarrow> Event list \<Rightarrow> (RenderState list \<times> Effect list) option" where
  "run TaskStatus p s [] = Some ([], [])"
| "run TaskStatus p s (e # es) =
     (case step TaskStatus p s e of
        None \<Rightarrow> None
      | Some (s', effs) \<Rightarrow>
          (case run TaskStatus p s' es of
             None \<Rightarrow> None
           | Some (ss, effs') \<Rightarrow> Some (s' # ss, effs @ effs')))"

inductive reachable :: "string list \<Rightarrow> Props \<Rightarrow> RenderState \<Rightarrow> bool"
  for TaskStatus :: "string list" and p :: Props where
  mounted: "reachable TaskStatus p (mount p)"
| stepped: "reachable TaskStatus p s \<Longrightarrow> step TaskStatus p s e = Some (s', effs)
            \<Longrightarrow> reachable TaskStatus p s'"

section \<open>Example configurations\<close>

text \<open>
  The concrete inputs at which the theorems below are instantiated: an enumeration with three
  members, the editor in creation mode with the draft of the spec's example, the editor in
  edit mode on the task with identity 7, and both editors with the capability for Save
  switched off.
\<close>

definition example_TaskStatus :: "string list" where
  "example_TaskStatus = [''Todo'', ''InProgress'', ''Done'']"

definition creation_props :: Props where
  "creation_props = \<lparr> task = None, canUpdate = False, canCreate = True, canDelete = False \<rparr>"

definition creation_props_without_create :: Props where
  "creation_props_without_create =
     \<lparr> task = None, canUpdate = False, canCreate = False, canDelete = False \<rparr>"

definition ship_report_draft :: FormData where
  "ship_report_draft =
     \<lparr> title = JStr ''Ship report'', status = JStr ''InProgress'', description = JStr [] \<rparr>"

definition ship_report_idle :: RenderState where
  "ship_report_idle = (mount creation_props)\<lparr>fieldValues := ship_report_draft\<rparr>"

definition example_task :: GetTaskFnDataType where
  "example_task =
     \<lparr> task_id = ''7'', task_title = JStr ''Ship report'', task_status = JStr ''Done'',
       task_description = JNull \<rparr>"

definition example_task_draft :: FormData where
  "example_task_draft =
     \<lparr> title = JStr ''Ship report'', status = JStr ''Done'', description = JStr [] \<rparr>"

definition edit_props :: Props where
  "edit_props = \<lparr> task = Some example_task, canUpdate = True, canCreate = True, canDelete = True \<rparr>"

definition edit_props_without_update :: Props where
  "edit_props_without_update =
     \<lparr> task = Some example_task, canUpdate = False, canCreate = True, canDelete = True \<rparr>"

definition edit_confirming :: RenderState where
  "edit_confirming = (mount edit_props)\<lparr>alertDialogOpen := True\<rparr>"

definition edit_deleting :: RenderState where
  "edit_deleting = (mount edit_props)\<lparr>isDeleting := True, pending := [awaiting_deleteTask]\<rparr>"

definition edit_deleting_and_saving :: RenderState where
  "edit_deleting_and_saving =
     (mount edit_props)\<lparr>isSaving := True, isDeleting := True,
                          pending := [awaiting_deleteTask, awaiting_updateTask]\<rparr>"

section \<open>Invariants of the reachable states\<close>

text \<open>
  The flag that is set is the one of a suspended handler, and the confirmation dialog is open
  only when it is rendered and nothing is in flight. At most one Save and at most one Delete
  are in flight; both are in flight together only when the Save was submitted during the
  Delete, which needs an editor that renders no Save button.
\<close>

definition lifecycle_inv :: "Props \<Rightarrow> RenderState \<Rightarrow> bool" where
  "lifecycle_inv p s =
     ((pending s = [] \<and> \<not> isSaving s \<and> \<not> isDeleting s \<and>
        (\<not> alertDialogOpen s \<or> (task p \<noteq> None \<and> canDelete p))) \<or>
      (pending s = [awaiting_deleteTask] \<and> \<not> isSaving s \<and> isDeleting s \<and> \<not> alertDialogOpen s) \<or>
      (pending s = [awaiting_createTask] \<and> isSaving s \<and> \<not> isDeleting s \<and> \<not> alertDialogOpen s) \<or>
      (pending s = [awaiting_updateTask] \<and> isSaving s \<and> \<not> isDeleting s \<and> \<not> alertDialogOpen s) \<or>
      (pending s = [awaiting_deleteTask, awaiting_createTask] \<and> isSaving s \<and> isDeleting s \<and>
        \<not> alertDialogOpen s \<and>
        \<not> (case task p of Some t \<Rightarrow> canUpdate p | None \<Rightarrow> canCreate p)) \<or>
      (pending s = [awaiting_deleteTask, awaiting_updateTask] \<and> isSaving s \<and> isDeleting s \<and>
        \<not> alertDialogOpen s \<and>
        \<not> (case task p of Some t \<Rightarrow> canUpdate p | None \<Rightarrow> canCreate p)))"

section \<open>What each control takes\<close>

lemma takes_save:
  "page_takes p s (saveButton (Render p s)) \<longleftrightarrow>
     (case task p of Some t \<Rightarrow> canUpdate p | None \<Rightarrow> canCreate p) \<and> \<not> isSaving s \<and> \<not> isDeleting s \<and>
     \<not> (task p \<noteq> None \<and> canDelete p \<and> alertDialogOpen s)"
  by (simp add: page_takes_def Render_def enabled_unless_def)

lemma takes_delete:
  "page_takes p s (deleteButton (Render p s)) \<longleftrightarrow>
     task p \<noteq> None \<and> canDelete p \<and> \<not> isSaving s \<and> \<not> isDeleting s \<and> \<not> alertDialogOpen s"
  by (auto simp add: page_takes_def Render_def enabled_unless_def)

lemma takes_new:
  "page_takes p s (newButton (Render p s)) \<longleftrightarrow>
     task p \<noteq> None \<and> canCreate p \<and> \<not> isSaving s \<and> \<not> isDeleting s \<and>
     \<not> (canDelete p \<and> alertDialogOpen s)"
  by (auto simp add: page_takes_def Render_def enabled_unless_def)

lemma takes_input:
  "page_takes p s (titleInput (Render p s)) \<longleftrightarrow>
     \<not> isSaving s \<and> \<not> (task p \<noteq> None \<and> canDelete p \<and> alertDialogOpen s)"
  "page_takes p s (statusSelect (Render p s)) \<longleftrightarrow>
     \<not> isSaving s \<and> \<not> (task p \<noteq> None \<and> canDelete p \<and> alertDialogOpen s)"
  "page_takes p s (descriptionTextarea (Render p s)) \<longleftrightarrow>
     \<not> isSaving s \<and> \<not> (task p \<noteq> None \<and> canDelete p \<and> alertDialogOpen s)"
  by (simp_all add: page_takes_def Render_def enabled_unless_def)

lemma takes_back:
  "page_takes p s rendered_enabled \<longleftrightarrow> \<not> (task p \<noteq> None \<and> canDelete p \<and> alertDialogOpen s)"
  by (simp add: page_takes_def Render_def)

lemma dialog_shown:
  "alertDialogContent (Render p s) \<longleftrightarrow> task p \<noteq> None \<and> canDelete p \<and> alertDialogOpen s"
  by (simp add: Render_def)

lemma save_not_rendered:
  "saveButton (Render p s) = not_rendered \<longleftrightarrow>
     \<not> (case task p of Some t \<Rightarrow> canUpdate p | None \<Rightarrow> canCreate p)"
  by (simp add: Render_def enabled_unless_def)

lemma takes_submit:
  "form_submits p s \<longleftrightarrow>
     \<not> isSaving s \<and> \<not> (task p \<noteq> None \<and> canDelete p \<and> alertDialogOpen s) \<and>
     ((case task p of Some t \<Rightarrow> canUpdate p | None \<Rightarrow> canCreate p) \<longrightarrow> \<not> isDeleting s)"
  unfolding form_submits_def takes_save takes_input save_not_rendered by blast

lemmas takes = takes_submit takes_save takes_delete takes_new takes_input takes_back dialog_shown

lemmas handler_defs = handleSubmit_def handleSubmit_returned_def onSubmit_start_def
  onSubmit_createTask_settled_def onSubmit_updateTask_settled_def onClick_Continue_start_def
  onClick_Continue_settled_def

lemma lifecycle_inv_cases:
  assumes "lifecycle_inv p s"
  obtains
    (idle) "pending s = []" "\<not> isSaving s" "\<not> isDeleting s"
           "\<not> alertDialogOpen s \<or> (task p \<noteq> None \<and> canDelete p)"
  | (deleting) "pending s = [awaiting_deleteTask]" "\<not> isSaving s" "isDeleting s" "\<not> alertDialogOpen s"
  | (creating) "pending s = [awaiting_createTask]" "isSaving s" "\<not> isDeleting s" "\<not> alertDialogOpen s"
  | (updating) "pending s = [awaiting_updateTask]" "isSaving s" "\<not> isDeleting s" "\<not> alertDialogOpen s"
  | (deleting_creating) "pending s = [awaiting_deleteTask, awaiting_createTask]" "isSaving s"
           "isDeleting s" "\<not> alertDialogOpen s"
           "\<not> (case task p of Some t \<Rightarrow> canUpdate p | None \<Rightarrow> canCreate p)"
  | (deleting_updating) "pending s = [awaiting_deleteTask, awaiting_updateTask]" "isSaving s"
           "isDeleting s" "\<not> alertDialogOpen s"
           "\<not> (case task p of Some t \<Rightarrow> canUpdate p | None \<Rightarrow> canCreate p)"
  using assms unfolding lifecycle_inv_def by blast

lemma step_preserves:
  assumes "lifecycle_inv p s"
  shows "case step ts p s e of None \<Rightarrow> True | Some (s', effs) \<Rightarrow> lifecycle_inv p s'"
  using assms
proof (cases rule: lifecycle_inv_cases)
  case idle
  then show ?thesis
    by (cases e;
        simp add: lifecycle_inv_def takes handler_defs
             split: option.split sum.split Settled.split;
        blast)
next
  case deleting
  then show ?thesis
    by (cases e;
        simp add: lifecycle_inv_def takes handler_defs
             split: option.split sum.split Settled.split;
        blast)
next
  case creating
  then show ?thesis
    by (cases e;
        simp add: lifecycle_inv_def takes handler_defs
             split: option.split sum.split Settled.split;
        blast)
next
  case updating
  then show ?thesis
    by (cases e;
        simp add: lifecycle_inv_def takes handler_defs
             split: option.split sum.split Settled.split;
        blast)
next
  case deleting_creating
  then show ?thesis
    by (cases e;
        simp add: lifecycle_inv_def takes handler_defs
             split: option.split sum.split Settled.split;
        blast)
next
  case deleting_updating
  then show ?thesis
    by (cases e;
        simp add: lifecycle_inv_def takes handler_defs
             split: option.split sum.split Settled.split;
        blast)
qed

lemma step_lifecycle_inv:
  assumes "lifecycle_inv p s" and "step ts p s e = Some (s', effs)"
  shows "lifecycle_inv p s'"
  using step_preserves [OF assms(1), of ts e] assms(2) by simp

lemma reachable_lifecycle_inv: "reachable ts p s \<Longrightarrow> lifecycle_inv p s"
proof (induction rule: reachable.induct)
  case mounted
  show ?case by (simp add: lifecycle_inv_def mount_def)
next
  case (stepped s e s' effs)
  then show ?case by (blast intro: step_lifecycle_inv)
qed

lemma idle_iff: "lifecycle s = Idle \<longleftrightarrow> \<not> isSaving s \<and> \<not> isDeleting s"
  by (simp add: lifecycle_def)

lemma reachable_idle:
  assumes "reachable ts p s" and "lifecycle s = Idle"
  shows "pending s = []" and "\<not> isSaving s" and "\<not> isDeleting s"
    and "alertDialogOpen s \<Longrightarrow> task p \<noteq> None \<and> canDelete p"
proof -
  have inv: "lifecycle_inv p s"
    using assms(1) by (rule reachable_lifecycle_inv)
  from assms(2) show "\<not> isSaving s" and "\<not> isDeleting s"
    by (simp_all add: idle_iff)
  from inv assms(2) show "pending s = []"
    by (cases rule: lifecycle_inv_cases) (simp_all add: idle_iff)
  from inv assms(2) show "task p \<noteq> None \<and> canDelete p" if "alertDialogOpen s"
    using that by (cases rule: lifecycle_inv_cases) (simp_all add: idle_iff)
qed

lemma submit_valid_draft:
  assumes "pending s = []" and "\<not> isSaving s" and "\<not> isDeleting s"
    and "\<not> (task p \<noteq> None \<and> canDelete p \<and> alertDialogOpen s)"
    and "case task p of Some t \<Rightarrow> canUpdate p | None \<Rightarrow> canCreate p"
    and "TaskSchema_safeParse ts (fieldValues s) = Inr data"
  shows "step ts p s submit_form =
    Some (s\<lparr>fieldErrors := [], isSaving := True,
             pending := [case task p of None \<Rightarrow> awaiting_createTask | Some t \<Rightarrow> awaiting_updateTask]\<rparr>,
          [Call (case task p of None \<Rightarrow> createTask data | Some t \<Rightarrow> updateTask (task_id t) data)])"
  using assms by (simp add: takes_submit handleSubmit_def onSubmit_start_def split: option.split)

lemma safeParse_Inr: "TaskSchema_safeParse ts d = Inr data \<Longrightarrow> data = d"
  by (simp add: TaskSchema_safeParse_def split: if_splits)

section \<open>The example configurations are reachable\<close>

lemmas example_defs = example_TaskStatus_def creation_props_def creation_props_without_create_def
  ship_report_draft_def ship_report_idle_def example_task_def example_task_draft_def edit_props_def
  edit_props_without_update_def edit_confirming_def edit_deleting_def edit_deleting_and_saving_def
  mount_def defaultValues_def optional_chaining_def

lemma reachable_ship_report_idle:
  "reachable example_TaskStatus creation_props ship_report_idle"
proof -
  let ?s0 = "mount creation_props"
  let ?s1 = "?s0\<lparr>fieldValues := (fieldValues ?s0)\<lparr>title := JStr ''Ship report''\<rparr>\<rparr>"
  have r0: "reachable example_TaskStatus creation_props ?s0" by (rule reachable.mounted)
  have "step example_TaskStatus creation_props ?s0 (change_title ''Ship report'') = Some (?s1, [])"
    by (simp add: takes revalidated_def example_defs)
  from reachable.stepped [OF r0 this]
  have r1: "reachable example_TaskStatus creation_props ?s1" .
  have "step example_TaskStatus creation_props ?s1 (change_status ''InProgress'')
      = Some (ship_report_idle, [])"
    by (simp add: takes revalidated_def example_defs)
  from reachable.stepped [OF r1 this] show ?thesis .
qed

lemma reachable_edit_confirming:
  "reachable example_TaskStatus edit_props edit_confirming"
proof -
  have "step example_TaskStatus edit_props (mount edit_props) click_Delete
      = Some (edit_confirming, [])"
    by (simp add: takes example_defs)
  from reachable.stepped [OF reachable.mounted this] show ?thesis .
qed

lemma reachable_edit_deleting:
  "reachable example_TaskStatus edit_props edit_deleting"
proof -
  have "step example_TaskStatus edit_props edit_confirming click_Continue
      = Some (edit_deleting, [Call (deleteTask ''7'')])"
    by (simp add: takes handler_defs example_defs)
  from reachable.stepped [OF reachable_edit_confirming this] show ?thesis .
qed

section \<open>The claims\<close>

text \<open>
  C1. In creation mode with \<open>canCreate\<close>, from any reachable idle state whose draft the
  schema accepts, submitting and the gateway resolving \<open>createTask\<close> with identity \<open>N\<close> issue
  the call, then exactly one navigation, to \<open>/tasks/N\<close>, and exactly one success notification;
  the lifecycle goes from idle to saving and back to idle.
\<close>

theorem C1_create_navigates_to_detail:
  assumes "reachable ts p s" and "lifecycle s = Idle"
    and "task p = None" and "canCreate p"
    and "TaskSchema_safeParse ts (fieldValues s) = Inr data"
  shows "\<exists>s1 s2 effs.
           run ts p s [submit_form, createTask_settled (Resolved N)] = Some ([s1, s2], effs) \<and>
           effs = [Call (createTask data), router_replace (''/tasks/'' @ N),
                   toast ''Task saved'' default_variant] \<and>
           count_effects is_navigation effs = 1 \<and>
           count_effects is_success_notification effs = 1 \<and>
           count_effects is_failure_notification effs = 0 \<and>
           map lifecycle [s, s1, s2] = [Idle, Saving, Idle]"
proof -
  let ?s1 = "s\<lparr>fieldErrors := [], isSaving := True, pending := [awaiting_createTask]\<rparr>"
  let ?s2 = "s\<lparr>fieldErrors := [], isSubmitted := True, isSaving := False, pending := []\<rparr>"
  note idle = reachable_idle(1-3) [OF assms(1,2)]
  have first: "step ts p s submit_form = Some (?s1, [Call (createTask data)])"
    using submit_valid_draft [OF idle, of p ts data] assms(3-5) by simp
  have second: "step ts p ?s1 (createTask_settled (Resolved N)) =
      Some (?s2, [router_replace (''/tasks/'' @ N), toast ''Task saved'' default_variant])"
    by (simp add: onSubmit_createTask_settled_def handleSubmit_returned_def)
  have "run ts p s [submit_form, createTask_settled (Resolved N)] =
      Some ([?s1, ?s2], [Call (createTask data), router_replace (''/tasks/'' @ N),
                   toast ''Task saved'' default_variant])"
    by (simp add: first second del: step.simps)
  moreover have "map lifecycle [s, ?s1, ?s2] = [Idle, Saving, Idle]"
    using idle by (simp add: lifecycle_def)
  ultimately show ?thesis
    by (simp add: count_effects_def)
qed

theorem C1_create_navigates_to_detail_witness:
  "reachable example_TaskStatus creation_props ship_report_idle \<and>
   lifecycle ship_report_idle = Idle \<and>
   task creation_props = None \<and> canCreate creation_props \<and>
   TaskSchema_safeParse example_TaskStatus (fieldValues ship_report_idle) = Inr ship_report_draft \<and>
   (\<exists>s1 s2.
      run example_TaskStatus creation_props ship_report_idle
        [submit_form, createTask_settled (Resolved ''42'')] =
      Some ([s1, s2], [Call (createTask ship_report_draft), router_replace ''/tasks/42'',
                       toast ''Task saved'' default_variant]) \<and>
      lifecycle s1 = Saving \<and> lifecycle s2 = Idle)"
proof -
  note r = reachable_ship_report_idle
  have i: "lifecycle ship_report_idle = Idle"
    by (simp add: lifecycle_def example_defs)
  have t: "task creation_props = None" and c: "canCreate creation_props"
    by (simp_all add: creation_props_def)
  have v: "TaskSchema_safeParse example_TaskStatus (fieldValues ship_report_idle) = Inr ship_report_draft"
    by (simp add: TaskSchema_safeParse_def TaskSchema_issues_def example_defs)
  from C1_create_navigates_to_detail [OF r i t c v, of "''42''"]
  have "\<exists>s1 s2.
      run example_TaskStatus creation_props ship_report_idle
        [submit_form, createTask_settled (Resolved ''42'')] =
      Some ([s1, s2], [Call (createTask ship_report_draft), router_replace ''/tasks/42'',
                       toast ''Task saved'' default_variant]) \<and>
      lifecycle s1 = Saving \<and> lifecycle s2 = Idle"
    by (auto simp del: run.simps)
  with r i t c v show ?thesis by blast
qed

text \<open>
  C8. In edit mode with \<open>canUpdate\<close>, from any reachable idle state whose draft the schema
  accepts, submitting calls \<open>updateTask\<close> with the identity of the task that was handed in and
  the fields of the draft; when the call resolves there is exactly one success notification
  and no navigation.
\<close>

theorem C8_update_stays_on_view:
  assumes "reachable ts p s" and "lifecycle s = Idle" and "\<not> alertDialogOpen s"
    and "task p = Some t" and "canUpdate p"
    and "TaskSchema_safeParse ts (fieldValues s) = Inr data"
  shows "\<exists>s1 s2 effs.
           run ts p s [submit_form, updateTask_settled (Resolved ())] = Some ([s1, s2], effs) \<and>
           effs = [Call (updateTask (task_id t) data), toast ''Task saved'' default_variant] \<and>
           data = fieldValues s \<and>
           count_effects is_navigation effs = 0 \<and>
           count_effects is_success_notification effs = 1 \<and>
           count_effects is_failure_notification effs = 0 \<and>
           map lifecycle [s, s1, s2] = [Idle, Saving, Idle]"
proof -
  let ?s1 = "s\<lparr>fieldErrors := [], isSaving := True, pending := [awaiting_updateTask]\<rparr>"
  let ?s2 = "s\<lparr>fieldErrors := [], isSubmitted := True, isSaving := False, pending := []\<rparr>"
  note idle = reachable_idle(1-3) [OF assms(1,2)]
  have first: "step ts p s submit_form = Some (?s1, [Call (updateTask (task_id t) data)])"
    using submit_valid_draft [OF idle, of p ts data] assms(3-6) by simp
  have second: "step ts p ?s1 (updateTask_settled (Resolved ())) =
      Some (?s2, [toast ''Task saved'' default_variant])"
    by (simp add: onSubmit_updateTask_settled_def handleSubmit_returned_def)
  have "run ts p s [submit_form, updateTask_settled (Resolved ())] =
      Some ([?s1, ?s2], [Call (updateTask (task_id t) data), toast ''Task saved'' default_variant])"
    by (simp add: first second del: step.simps)
  moreover have "map lifecycle [s, ?s1, ?s2] = [Idle, Saving, Idle]"
    using idle by (simp add: lifecycle_def)
  moreover have "data = fieldValues s"
    using assms(6) by (rule safeParse_Inr)
  ultimately show ?thesis
    by (simp add: count_effects_def)
qed

theorem C8_update_stays_on_view_witness:
  "reachable example_TaskStatus edit_props (mount edit_props) \<and>
   lifecycle (mount edit_props) = Idle \<and> \<not> alertDialogOpen (mount edit_props) \<and>
   task edit_props = Some example_task \<and> canUpdate edit_props \<and>
   TaskSchema_safeParse example_TaskStatus (fieldValues (mount edit_props)) =
     Inr \<lparr>title = JStr ''Ship report'', status = JStr ''Done'', description = JStr []\<rparr> \<and>
   (\<exists>s1 s2.
      run example_TaskStatus edit_props (mount edit_props)
        [submit_form, updateTask_settled (Resolved ())] =
      Some ([s1, s2],
        [Call (updateTask ''7'' \<lparr>title = JStr ''Ship report'', status = JStr ''Done'', description = JStr []\<rparr>),
         toast ''Task saved'' default_variant]) \<and>
      lifecycle s1 = Saving \<and> lifecycle s2 = Idle)"
proof -
  have r: "reachable example_TaskStatus edit_props (mount edit_props)"
    by (rule reachable.mounted)
  have i: "lifecycle (mount edit_props) = Idle" and d: "\<not> alertDialogOpen (mount edit_props)"
    by (simp_all add: lifecycle_def mount_def)
  have t: "task edit_props = Some example_task" and c: "canUpdate edit_props"
    by (simp_all add: edit_props_def)
  have v: "TaskSchema_safeParse example_TaskStatus (fieldValues (mount edit_props)) =
     Inr \<lparr>title = JStr ''Ship report'', status = JStr ''Done'', description = JStr []\<rparr>"
    by (simp add: TaskSchema_safeParse_def TaskSchema_issues_def example_defs)
  have id: "task_id example_task = ''7''"
    by (simp add: example_task_def)
  from C8_update_stays_on_view [OF r i d t c v]
  have "\<exists>s1 s2.
      run example_TaskStatus edit_props (mount edit_props)
        [submit_form, updateTask_settled (Resolved ())] =
      Some ([s1, s2],
        [Call (updateTask ''7'' \<lparr>title = JStr ''Ship report'', status = JStr ''Done'', description = JStr []\<rparr>),
         toast ''Task saved'' default_variant]) \<and>
      lifecycle s1 = Saving \<and> lifecycle s2 = Idle"
    unfolding id by (auto simp del: run.simps)
  with r i d t c v show ?thesis by blast
qed

lemma saving_freezes_form:
  assumes "isSaving s"
  shows "case step ts p s e of None \<Rightarrow> True
         | Some (s', effs) \<Rightarrow> fieldValues s' = fieldValues s \<and> fieldErrors s' = fieldErrors s"
  using assms
  by (cases e; simp add: takes handler_defs split: option.split Settled.split)

text \<open>
  C3. Whenever the \<open>createTask\<close> or \<open>updateTask\<close> call of Save is rejected, the settling
  emits exactly one notification, the failure \<open>Error saving task\<close>, and leaves the field values
  and field errors as they were. From a reachable idle state with Save offered and a draft
  the schema accepts, the whole Save then consists of the call and that one failure
  notification, with no navigation; the field values after it are those before the call, no
  event that can happen while the call is in flight changes them, and the lifecycle goes
  from idle to saving and back to idle.
\<close>

theorem C3_save_failure_keeps_form:
  "(\<forall>s' effs. step ts p s0 (createTask_settled (Rejected err)) = Some (s', effs) \<longrightarrow>
       effs = [toast ''Error saving task'' destructive] \<and>
       fieldValues s' = fieldValues s0 \<and> fieldErrors s' = fieldErrors s0) \<and>
   (\<forall>s' effs. step ts p s0 (updateTask_settled (Rejected err)) = Some (s', effs) \<longrightarrow>
       effs = [toast ''Error saving task'' destructive] \<and>
       fieldValues s' = fieldValues s0 \<and> fieldErrors s' = fieldErrors s0) \<and>
   (reachable ts p s \<and> lifecycle s = Idle \<and> \<not> alertDialogOpen s \<and>
    (case task p of Some t \<Rightarrow> canUpdate p | None \<Rightarrow> canCreate p) \<and>
    TaskSchema_safeParse ts (fieldValues s) = Inr data \<longrightarrow>
    (\<exists>s1 s2 effs.
       run ts p s [submit_form,
                   case task p of None \<Rightarrow> createTask_settled (Rejected err)
                   | Some t \<Rightarrow> updateTask_settled (Rejected err)] = Some ([s1, s2], effs) \<and>
       effs = [Call (case task p of None \<Rightarrow> createTask data | Some t \<Rightarrow> updateTask (task_id t) data),
               toast ''Error saving task'' destructive] \<and>
       count_effects is_failure_notification effs = 1 \<and>
       count_effects is_success_notification effs = 0 \<and>
       count_effects is_navigation effs = 0 \<and>
       fieldValues s1 = fieldValues s \<and>
       fieldValues s2 = fieldValues s1 \<and> fieldErrors s2 = fieldErrors s1 \<and>
       (\<forall>e s' effs'. step ts p s1 e = Some (s', effs') \<longrightarrow>
          fieldValues s' = fieldValues s1 \<and> fieldErrors s' = fieldErrors s1) \<and>
       map lifecycle [s, s1, s2] = [Idle, Saving, Idle]))"
proof (intro conjI allI impI)
  fix s' effs
  assume "step ts p s0 (createTask_settled (Rejected err)) = Some (s', effs)"
  then show "effs = [toast ''Error saving task'' destructive]"
    and "fieldValues s' = fieldValues s0" and "fieldErrors s' = fieldErrors s0"
    by (auto simp: onSubmit_createTask_settled_def handleSubmit_returned_def split: if_splits)
next
  fix s' effs
  assume "step ts p s0 (updateTask_settled (Rejected err)) = Some (s', effs)"
  then show "effs = [toast ''Error saving task'' destructive]"
    and "fieldValues s' = fieldValues s0" and "fieldErrors s' = fieldErrors s0"
    by (auto simp: onSubmit_updateTask_settled_def handleSubmit_returned_def split: if_splits)
next
  assume a: "reachable ts p s \<and> lifecycle s = Idle \<and> \<not> alertDialogOpen s \<and>
    (case task p of Some t \<Rightarrow> canUpdate p | None \<Rightarrow> canCreate p) \<and>
    TaskSchema_safeParse ts (fieldValues s) = Inr data"
  let ?k = "case task p of None \<Rightarrow> awaiting_createTask | Some t \<Rightarrow> awaiting_updateTask"
  let ?c = "case task p of None \<Rightarrow> createTask data | Some t \<Rightarrow> updateTask (task_id t) data"
  let ?e = "case task p of None \<Rightarrow> createTask_settled (Rejected err)
            | Some t \<Rightarrow> updateTask_settled (Rejected err)"
  let ?s1 = "s\<lparr>fieldErrors := [], isSaving := True, pending := [?k]\<rparr>"
  let ?s2 = "s\<lparr>fieldErrors := [], isSubmitted := True, isSaving := False, pending := []\<rparr>"
  from a have r: "reachable ts p s" and i: "lifecycle s = Idle" by simp_all
  note idle = reachable_idle(1-3) [OF r i]
  have first: "step ts p s submit_form = Some (?s1, [Call ?c])"
    using submit_valid_draft [OF idle, of p ts data] a by simp
  have second: "step ts p ?s1 ?e = Some (?s2, [toast ''Error saving task'' destructive])"
    by (simp add: onSubmit_createTask_settled_def onSubmit_updateTask_settled_def
          handleSubmit_returned_def split: option.split)
  have whole: "run ts p s [submit_form, ?e] =
      Some ([?s1, ?s2], [Call ?c, toast ''Error saving task'' destructive])"
    by (simp add: first second del: step.simps)
  have lc: "map lifecycle [s, ?s1, ?s2] = [Idle, Saving, Idle]"
    using idle by (simp add: lifecycle_def)
  have frozen: "fieldValues s' = fieldValues ?s1 \<and> fieldErrors s' = fieldErrors ?s1"
    if "step ts p ?s1 e = Some (s', effs')" for e s' effs'
    using saving_freezes_form [of ?s1 ts p e] that by simp
  show "\<exists>s1 s2 effs.
       run ts p s [submit_form, ?e] = Some ([s1, s2], effs) \<and>
       effs = [Call ?c, toast ''Error saving task'' destructive] \<and>
       count_effects is_failure_notification effs = 1 \<and>
       count_effects is_success_notification effs = 0 \<and>
       count_effects is_navigation effs = 0 \<and>
       fieldValues s1 = fieldValues s \<and>
       fieldValues s2 = fieldValues s1 \<and> fieldErrors s2 = fieldErrors s1 \<and>
       (\<forall>e s' effs'. step ts p s1 e = Some (s', effs') \<longrightarrow>
          fieldValues s' = fieldValues s1 \<and> fieldErrors s' = fieldErrors s1) \<and>
       map lifecycle [s, s1, s2] = [Idle, Saving, Idle]"
  proof (intro exI conjI)
    show "run ts p s [submit_form, ?e] = Some ([?s1, ?s2], [Call ?c, toast ''Error saving task'' destructive])"
      by (rule whole)
    show "map lifecycle [s, ?s1, ?s2] = [Idle, Saving, Idle]" by (rule lc)
    show "\<forall>e s' effs'. step ts p ?s1 e = Some (s', effs') \<longrightarrow>
          fieldValues s' = fieldValues ?s1 \<and> fieldErrors s' = fieldErrors ?s1"
      using frozen by blast
  qed (simp_all add: count_effects_def)
qed

theorem C3_save_failure_keeps_form_witness:
  "reachable example_TaskStatus edit_props (mount edit_props) \<and>
   lifecycle (mount edit_props) = Idle \<and> \<not> alertDialogOpen (mount edit_props) \<and>
   canUpdate edit_props \<and>
   TaskSchema_safeParse example_TaskStatus (fieldValues (mount edit_props)) =
     Inr \<lparr>title = JStr ''Ship report'', status = JStr ''Done'', description = JStr []\<rparr> \<and>
   (\<exists>s1 s2.
      run example_TaskStatus edit_props (mount edit_props)
        [submit_form, updateTask_settled (Rejected RemoteError)] =
      Some ([s1, s2],
        [Call (updateTask ''7'' \<lparr>title = JStr ''Ship report'', status = JStr ''Done'', description = JStr []\<rparr>),
         toast ''Error saving task'' destructive]) \<and>
      fieldValues s2 = fieldValues (mount edit_props) \<and> lifecycle s2 = Idle)"
proof -
  let ?d = "\<lparr>title = JStr ''Ship report'', status = JStr ''Done'', description = JStr []\<rparr>"
  have r: "reachable example_TaskStatus edit_props (mount edit_props)"
    by (rule reachable.mounted)
  have i: "lifecycle (mount edit_props) = Idle" and d: "\<not> alertDialogOpen (mount edit_props)"
    by (simp_all add: lifecycle_def mount_def)
  have t: "task edit_props = Some example_task" and c: "canUpdate edit_props"
    by (simp_all add: edit_props_def)
  have v: "TaskSchema_safeParse example_TaskStatus (fieldValues (mount edit_props)) = Inr ?d"
    by (simp add: TaskSchema_safeParse_def TaskSchema_issues_def example_defs)
  have id: "task_id example_task = ''7''"
    by (simp add: example_task_def)
  have pre: "reachable example_TaskStatus edit_props (mount edit_props) \<and>
      lifecycle (mount edit_props) = Idle \<and> \<not> alertDialogOpen (mount edit_props) \<and>
      (case task edit_props of Some t \<Rightarrow> canUpdate edit_props | None \<Rightarrow> canCreate edit_props) \<and>
      TaskSchema_safeParse example_TaskStatus (fieldValues (mount edit_props)) = Inr ?d"
    using r i d c v by (simp add: t)
  from C3_save_failure_keeps_form
    [of example_TaskStatus edit_props "mount edit_props" RemoteError "mount edit_props" ?d,
      THEN conjunct2, THEN conjunct2, THEN mp, OF pre]
  obtain s1 s2 effs where
    "run example_TaskStatus edit_props (mount edit_props)
       [submit_form, case task edit_props of None \<Rightarrow> createTask_settled (Rejected RemoteError)
                     | Some t \<Rightarrow> updateTask_settled (Rejected RemoteError)] = Some ([s1, s2], effs)"
    "effs = [Call (case task edit_props of None \<Rightarrow> createTask ?d
                   | Some t \<Rightarrow> updateTask (task_id t) ?d),
             toast ''Error saving task'' destructive]"
    "fieldValues s1 = fieldValues (mount edit_props)" "fieldValues s2 = fieldValues s1"
    "map lifecycle [mount edit_props, s1, s2] = [Idle, Saving, Idle]"
    by (elim exE conjE) (rule that)
  then have "\<exists>s1 s2.
      run example_TaskStatus edit_props (mount edit_props)
        [submit_form, updateTask_settled (Rejected RemoteError)] =
      Some ([s1, s2], [Call (updateTask ''7'' ?d), toast ''Error saving task'' destructive]) \<and>
      fieldValues s2 = fieldValues (mount edit_props) \<and> lifecycle s2 = Idle"
    by (auto simp: t id simp del: run.simps)
  with r i d c v show ?thesis by blast
qed

text \<open>
  C7. In edit mode with \<open>canDelete\<close>, from any reachable idle state, pressing Delete and then
  Continue calls \<open>deleteTask\<close> with the identity of the task. When the call resolves there is
  exactly one success notification and exactly one navigation, to \<open>/tasks\<close>; when it is
  rejected, whatever the error, there is exactly one failure notification and no navigation.
  Either way the lifecycle ends idle.
\<close>

theorem C7_confirmed_delete:
  assumes "reachable ts p s" and "lifecycle s = Idle" and "\<not> alertDialogOpen s"
    and "task p = Some t" and "canDelete p"
  shows "(\<exists>s1 s2 s3 effs.
            run ts p s [click_Delete, click_Continue, deleteTask_settled (Resolved ())] =
              Some ([s1, s2, s3], effs) \<and>
            effs = [Call (deleteTask (task_id t)), toast ''Task deleted'' default_variant,
                    router_push ''/tasks''] \<and>
            count_effects is_success_notification effs = 1 \<and>
            count_effects is_failure_notification effs = 0 \<and>
            count_effects is_navigation effs = 1 \<and>
            map lifecycle [s, s1, s2, s3] = [Idle, Idle, Deleting, Idle]) \<and>
         (\<exists>s1 s2 s3 effs.
            run ts p s [click_Delete, click_Continue, deleteTask_settled (Rejected err)] =
              Some ([s1, s2, s3], effs) \<and>
            effs = [Call (deleteTask (task_id t)), toast ''Error deleting task'' destructive] \<and>
            count_effects is_success_notification effs = 0 \<and>
            count_effects is_failure_notification effs = 1 \<and>
            count_effects is_navigation effs = 0 \<and>
            map lifecycle [s, s1, s2, s3] = [Idle, Idle, Deleting, Idle])"
proof -
  let ?s1 = "s\<lparr>alertDialogOpen := True\<rparr>"
  let ?s2 = "s\<lparr>isDeleting := True, alertDialogOpen := False, pending := [awaiting_deleteTask]\<rparr>"
  let ?s3 = "s\<lparr>isDeleting := False, alertDialogOpen := False, pending := []\<rparr>"
  note idle = reachable_idle(1-3) [OF assms(1,2)]
  have first: "step ts p s click_Delete = Some (?s1, [])"
    using idle assms(3-5) by (simp add: takes_delete)
  have second: "step ts p ?s1 click_Continue = Some (?s2, [Call (deleteTask (task_id t))])"
    using idle assms(4,5) by (simp add: dialog_shown onClick_Continue_start_def)
  have ok: "step ts p ?s2 (deleteTask_settled (Resolved ())) =
      Some (?s3, [toast ''Task deleted'' default_variant, router_push ''/tasks''])"
    by (simp add: onClick_Continue_settled_def)
  have ko: "step ts p ?s2 (deleteTask_settled (Rejected err)) =
      Some (?s3, [toast ''Error deleting task'' destructive])"
    by (simp add: onClick_Continue_settled_def)
  have run_ok: "run ts p s [click_Delete, click_Continue, deleteTask_settled (Resolved ())] =
      Some ([?s1, ?s2, ?s3], [Call (deleteTask (task_id t)), toast ''Task deleted'' default_variant,
                    router_push ''/tasks''])"
    by (simp add: first second ok del: step.simps)
  have run_ko: "run ts p s [click_Delete, click_Continue, deleteTask_settled (Rejected err)] =
      Some ([?s1, ?s2, ?s3], [Call (deleteTask (task_id t)), toast ''Error deleting task'' destructive])"
    by (simp add: first second ko del: step.simps)
  have lc: "map lifecycle [s, ?s1, ?s2, ?s3] = [Idle, Idle, Deleting, Idle]"
    using idle by (simp add: lifecycle_def)
  show ?thesis
  proof (intro conjI)
    show "\<exists>s1 s2 s3 effs.
            run ts p s [click_Delete, click_Continue, deleteTask_settled (Resolved ())] =
              Some ([s1, s2, s3], effs) \<and>
            effs = [Call (deleteTask (task_id t)), toast ''Task deleted'' default_variant,
                    router_push ''/tasks''] \<and>
            count_effects is_success_notification effs = 1 \<and>
            count_effects is_failure_notification effs = 0 \<and>
            count_effects is_navigation effs = 1 \<and>
            map lifecycle [s, s1, s2, s3] = [Idle, Idle, Deleting, Idle]"
      using run_ok lc by (simp add: count_effects_def del: run.simps)
    show "\<exists>s1 s2 s3 effs.
            run ts p s [click_Delete, click_Continue, deleteTask_settled (Rejected err)] =
              Some ([s1, s2, s3], effs) \<and>
            effs = [Call (deleteTask (task_id t)), toast ''Error deleting task'' destructive] \<and>
            count_effects is_success_notification effs = 0 \<and>
            count_effects is_failure_notification effs = 1 \<and>
            count_effects is_navigation effs = 0 \<and>
            map lifecycle [s, s1, s2, s3] = [Idle, Idle, Deleting, Idle]"
      using run_ko lc by (simp add: count_effects_def del: run.simps)
  qed
qed

theorem C7_confirmed_delete_witness:
  "reachable example_TaskStatus edit_props (mount edit_props) \<and>
   lifecycle (mount edit_props) = Idle \<and> \<not> alertDialogOpen (mount edit_props) \<and>
   task edit_props = Some example_task \<and> canDelete edit_props \<and>
   (\<exists>s1 s2 s3.
      run example_TaskStatus edit_props (mount edit_props)
        [click_Delete, click_Continue, deleteTask_settled (Resolved ())] =
      Some ([s1, s2, s3],
        [Call (deleteTask ''7''), toast ''Task deleted'' default_variant, router_push ''/tasks'']) \<and>
      lifecycle s3 = Idle) \<and>
   (\<exists>s1 s2 s3.
      run example_TaskStatus edit_props (mount edit_props)
        [click_Delete, click_Continue, deleteTask_settled (Rejected NotFoundError)] =
      Some ([s1, s2, s3],
        [Call (deleteTask ''7''), toast ''Error deleting task'' destructive]) \<and>
      lifecycle s3 = Idle)"
proof -
  have r: "reachable example_TaskStatus edit_props (mount edit_props)"
    by (rule reachable.mounted)
  have i: "lifecycle (mount edit_props) = Idle" and d: "\<not> alertDialogOpen (mount edit_props)"
    by (simp_all add: lifecycle_def mount_def)
  have t: "task edit_props = Some example_task" and c: "canDelete edit_props"
    by (simp_all add: edit_props_def)
  have id: "task_id example_task = ''7''"
    by (simp add: example_task_def)
  note th = C7_confirmed_delete [OF r i d t c, of NotFoundError, unfolded id]
  have a: "\<exists>s1 s2 s3.
      run example_TaskStatus edit_props (mount edit_props)
        [click_Delete, click_Continue, deleteTask_settled (Resolved ())] =
      Some ([s1, s2, s3],
        [Call (deleteTask ''7''), toast ''Task deleted'' default_variant, router_push ''/tasks'']) \<and>
      lifecycle s3 = Idle"
    using th [THEN conjunct1] by (auto simp del: run.simps)
  have b: "\<exists>s1 s2 s3.
      run example_TaskStatus edit_props (mount edit_props)
        [click_Delete, click_Continue, deleteTask_settled (Rejected NotFoundError)] =
      Some ([s1, s2, s3],
        [Call (deleteTask ''7''), toast ''Error deleting task'' destructive]) \<and>
      lifecycle s3 = Idle"
    using th [THEN conjunct2] by (auto simp del: run.simps)
  from r i d t c a b show ?thesis by blast
qed

lemma deleteTask_only_from_Continue:
  assumes "step ts p s e = Some (s', effs)" and "Call (deleteTask i) \<in> set effs"
  shows "e = click_Continue \<and> alertDialogContent (Render p s)"
  using assms
  by (cases e)
     (auto simp: handler_defs split: if_splits option.splits sum.splits Settled.splits)

lemma dialog_opened_by_Delete:
  assumes "step ts p s e = Some (s', effs)" and "\<not> alertDialogOpen s" and "alertDialogOpen s'"
  shows "e = click_Delete \<and> effs = []"
  using assms
  by (cases e)
     (auto simp: handler_defs split: if_splits option.splits sum.splits Settled.splits)

text \<open>
  C4. The only event that issues \<open>deleteTask\<close> is pressing Continue while the confirmation
  dialog is shown, and the only event that opens the dialog is pressing Delete, which issues
  nothing. Pressing Cancel is always possible while the dialog is shown; it issues nothing
  and changes neither the field values, the field errors, the two flags nor the suspended
  calls. Pressing Delete and then Cancel leads back to the very state before.
\<close>

theorem C4_delete_needs_confirmation:
  "(\<forall>s' effs i. step ts p s e = Some (s', effs) \<and> Call (deleteTask i) \<in> set effs \<longrightarrow>
       e = click_Continue \<and> alertDialogContent (Render p s)) \<and>
   (\<forall>s' effs. step ts p s e = Some (s', effs) \<and> \<not> alertDialogOpen s \<and> alertDialogOpen s' \<longrightarrow>
       e = click_Delete \<and> effs = []) \<and>
   (alertDialogContent (Render p s) \<longrightarrow>
       step ts p s click_Cancel = Some (s\<lparr>alertDialogOpen := False\<rparr>, [])) \<and>
   (\<forall>s' effs. step ts p s click_Cancel = Some (s', effs) \<longrightarrow>
       effs = [] \<and> fieldValues s' = fieldValues s \<and> fieldErrors s' = fieldErrors s \<and>
       isSaving s' = isSaving s \<and> isDeleting s' = isDeleting s \<and>
       lifecycle s' = lifecycle s \<and> pending s' = pending s) \<and>
   (\<forall>s1 effs. step ts p s click_Delete = Some (s1, effs) \<longrightarrow>
       run ts p s [click_Delete, click_Cancel] = Some ([s1, s], []))"
proof (intro conjI allI impI)
  fix s' effs i
  assume "step ts p s e = Some (s', effs) \<and> Call (deleteTask i) \<in> set effs"
  then show "e = click_Continue" and "alertDialogContent (Render p s)"
    using deleteTask_only_from_Continue by blast+
next
  fix s' effs
  assume "step ts p s e = Some (s', effs) \<and> \<not> alertDialogOpen s \<and> alertDialogOpen s'"
  then show "e = click_Delete" and "effs = []"
    using dialog_opened_by_Delete by blast+
next
  assume "alertDialogContent (Render p s)"
  then show "step ts p s click_Cancel = Some (s\<lparr>alertDialogOpen := False\<rparr>, [])"
    by simp
next
  fix s' effs
  assume "step ts p s click_Cancel = Some (s', effs)"
  then have "effs = []" and "s' = s\<lparr>alertDialogOpen := False\<rparr>"
    by (auto split: if_splits)
  then show "effs = []" and "fieldValues s' = fieldValues s" and "fieldErrors s' = fieldErrors s"
    and "isSaving s' = isSaving s" and "isDeleting s' = isDeleting s"
    and "lifecycle s' = lifecycle s" and "pending s' = pending s"
    by (simp_all add: lifecycle_def)
next
  fix s1 effs
  assume a: "step ts p s click_Delete = Some (s1, effs)"
  then have t: "page_takes p s (deleteButton (Render p s))"
    and s1: "s1 = s\<lparr>alertDialogOpen := True\<rparr>" and "effs = []"
    by (auto split: if_splits)
  from t have closed: "\<not> alertDialogOpen s" and shown: "task p \<noteq> None \<and> canDelete p"
    by (simp_all add: takes_delete)
  have undo: "s1\<lparr>alertDialogOpen := False\<rparr> = s"
    using closed s1 by simp
  have "step ts p s1 click_Cancel = Some (s, [])"
    using shown s1 undo by (simp add: dialog_shown)
  with a \<open>effs = []\<close> show "run ts p s [click_Delete, click_Cancel] = Some ([s1, s], [])"
    by (simp del: step.simps)
qed

theorem C4_delete_needs_confirmation_witness:
  "step example_TaskStatus edit_props (mount edit_props) click_Delete = Some (edit_confirming, []) \<and>
   alertDialogContent (Render edit_props edit_confirming) \<and>
   step example_TaskStatus edit_props edit_confirming click_Cancel = Some (mount edit_props, []) \<and>
   run example_TaskStatus edit_props (mount edit_props) [click_Delete, click_Cancel] =
     Some ([edit_confirming, mount edit_props], []) \<and>
   step example_TaskStatus edit_props edit_confirming click_Continue =
     Some (edit_deleting, [Call (deleteTask ''7'')])"
proof -
  have o: "step example_TaskStatus edit_props (mount edit_props) click_Delete = Some (edit_confirming, [])"
    by (simp add: takes example_defs)
  have sh: "alertDialogContent (Render edit_props edit_confirming)"
    by (simp add: dialog_shown example_defs)
  have undo: "edit_confirming\<lparr>alertDialogOpen := False\<rparr> = mount edit_props"
    by (simp add: example_defs)
  note th = C4_delete_needs_confirmation [of example_TaskStatus edit_props _ click_Continue]
  from th [of edit_confirming, THEN conjunct2, THEN conjunct2, THEN conjunct1, THEN mp, OF sh]
  have c: "step example_TaskStatus edit_props edit_confirming click_Cancel = Some (mount edit_props, [])"
    unfolding undo .
  from th [of "mount edit_props", THEN conjunct2, THEN conjunct2, THEN conjunct2, THEN conjunct2] o
  have rn: "run example_TaskStatus edit_props (mount edit_props) [click_Delete, click_Cancel] =
     Some ([edit_confirming, mount edit_props], [])"
    by blast
  have k: "step example_TaskStatus edit_props edit_confirming click_Continue =
     Some (edit_deleting, [Call (deleteTask ''7'')])"
    by (simp add: takes handler_defs example_defs)
  from o sh c rn k show ?thesis by blast
qed

lemma safeParse_Inl:
  "TaskSchema_safeParse ts d = Inl issues \<longleftrightarrow>
     issues = TaskSchema_issues ts d \<and> TaskSchema_issues ts d \<noteq> []"
  by (auto simp: TaskSchema_safeParse_def)

lemma empty_title_issue:
  "title d = JStr [] \<Longrightarrow> (''title'', too_small) \<in> set (TaskSchema_issues ts d)"
  by (simp add: TaskSchema_issues_def)

lemma unknown_status_issue:
  "status d = JStr x \<Longrightarrow> x \<notin> set ts \<Longrightarrow>
     (''status'', invalid_enum_value) \<in> set (TaskSchema_issues ts d)"
  by (simp add: TaskSchema_issues_def)

lemma string_draft_issues:
  assumes "is_string (title d)" and "is_string (status d)" and "is_string (description d)"
  shows "TaskSchema_issues ts d \<noteq> [] \<longleftrightarrow>
           title d = JStr [] \<or> (\<forall>x. status d = JStr x \<longrightarrow> x \<notin> set ts)"
proof -
  from assms obtain a b c where "title d = JStr a" "status d = JStr b" "description d = JStr c"
    by (metis is_string.elims(2))
  moreover have "1 \<le> length a \<longleftrightarrow> a \<noteq> []"
    by (cases a) simp_all
  ultimately show ?thesis
    by (simp add: TaskSchema_issues_def)
qed

text \<open>
  C2. When the schema rejects the draft there is at least one issue, \<open>handleSubmit\<close> stores
  the issues as the field errors, marks the form as submitted and does nothing else: however
  the form is submitted, by the Save button or by the Enter key, the submission issues no
  gateway call, no notification and no navigation, and leaves the field values, the
  lifecycle and the suspended calls as they were. A draft whose title is
  the empty string is rejected with the issue \<open>too_small\<close> on \<open>title\<close>; a draft whose status is
  not a member of the enumeration is rejected with the issue \<open>invalid_enum_value\<close> on
  \<open>status\<close>; and a draft whose three fields are strings is rejected exactly when its title is
  empty or its status is not a member of the enumeration.
\<close>

theorem C2_invalid_draft_stays_local:
  "(\<forall>issues. TaskSchema_safeParse ts (fieldValues s) = Inl issues \<longrightarrow>
      issues \<noteq> [] \<and>
      handleSubmit ts p s = (s\<lparr>fieldErrors := issues, isSubmitted := True\<rparr>, []) \<and>
      (page_takes p s (saveButton (Render p s)) \<longrightarrow>
         step ts p s submit_form = Some (s\<lparr>fieldErrors := issues, isSubmitted := True\<rparr>, [])) \<and>
      (form_submits p s \<longrightarrow>
         step ts p s submit_form = Some (s\<lparr>fieldErrors := issues, isSubmitted := True\<rparr>, [])) \<and>
      (\<forall>s' effs. step ts p s submit_form = Some (s', effs) \<longrightarrow>
         count_effects is_gateway_call effs = 0 \<and> effs = [] \<and>
         fieldErrors s' = issues \<and> fieldValues s' = fieldValues s \<and>
         lifecycle s' = lifecycle s \<and> pending s' = pending s)) \<and>
   (title d = JStr [] \<longrightarrow>
      (\<exists>issues. TaskSchema_safeParse ts d = Inl issues \<and> (''title'', too_small) \<in> set issues)) \<and>
   (\<forall>x. status d = JStr x \<and> x \<notin> set ts \<longrightarrow>
      (\<exists>issues. TaskSchema_safeParse ts d = Inl issues \<and>
         (''status'', invalid_enum_value) \<in> set issues)) \<and>
   (is_string (title d) \<and> is_string (status d) \<and> is_string (description d) \<longrightarrow>
      ((\<exists>issues. TaskSchema_safeParse ts d = Inl issues) \<longleftrightarrow>
         title d = JStr [] \<or> (\<forall>x. status d = JStr x \<longrightarrow> x \<notin> set ts)))"
proof (intro conjI allI impI)
  fix issues
  assume a: "TaskSchema_safeParse ts (fieldValues s) = Inl issues"
  then show "issues \<noteq> []"
    by (simp add: safeParse_Inl)
  from a show h: "handleSubmit ts p s = (s\<lparr>fieldErrors := issues, isSubmitted := True\<rparr>, [])"
    by (simp add: handleSubmit_def)
  then show "step ts p s submit_form = Some (s\<lparr>fieldErrors := issues, isSubmitted := True\<rparr>, [])"
    if "page_takes p s (saveButton (Render p s))"
    using that by (simp add: form_submits_def)
  from h show "step ts p s submit_form = Some (s\<lparr>fieldErrors := issues, isSubmitted := True\<rparr>, [])"
    if "form_submits p s"
    using that by simp
  fix s' effs
  assume "step ts p s submit_form = Some (s', effs)"
  with h have "effs = []" and "s' = s\<lparr>fieldErrors := issues, isSubmitted := True\<rparr>"
    by (auto split: if_splits)
  then show "count_effects is_gateway_call effs = 0" and "effs = []"
    and "fieldErrors s' = issues" and "fieldValues s' = fieldValues s"
    and "lifecycle s' = lifecycle s" and "pending s' = pending s"
    by (simp_all add: count_effects_def lifecycle_def)
next
  assume "title d = JStr []"
  then have "(''title'', too_small) \<in> set (TaskSchema_issues ts d)"
    by (rule empty_title_issue)
  then show "\<exists>issues. TaskSchema_safeParse ts d = Inl issues \<and> (''title'', too_small) \<in> set issues"
    by (auto simp: safeParse_Inl)
next
  fix x
  assume "status d = JStr x \<and> x \<notin> set ts"
  then have "(''status'', invalid_enum_value) \<in> set (TaskSchema_issues ts d)"
    by (simp add: unknown_status_issue)
  then show "\<exists>issues. TaskSchema_safeParse ts d = Inl issues \<and>
         (''status'', invalid_enum_value) \<in> set issues"
    by (auto simp: safeParse_Inl)
next
  assume "is_string (title d) \<and> is_string (status d) \<and> is_string (description d)"
  then show "(\<exists>issues. TaskSchema_safeParse ts d = Inl issues) \<longleftrightarrow>
         title d = JStr [] \<or> (\<forall>x. status d = JStr x \<longrightarrow> x \<notin> set ts)"
    by (simp add: safeParse_Inl string_draft_issues)
qed

theorem C2_invalid_draft_stays_local_witness:
  "TaskSchema_safeParse example_TaskStatus (fieldValues (mount creation_props)) =
     Inl [(''title'', too_small)] \<and>
   title (fieldValues (mount creation_props)) = JStr [] \<and>
   page_takes creation_props (mount creation_props)
     (saveButton (Render creation_props (mount creation_props))) \<and>
   step example_TaskStatus creation_props (mount creation_props) submit_form =
     Some ((mount creation_props)\<lparr>fieldErrors := [(''title'', too_small)], isSubmitted := True\<rparr>, []) \<and>
   lifecycle ((mount creation_props)\<lparr>fieldErrors := [(''title'', too_small)], isSubmitted := True\<rparr>) = Idle"
proof -
  let ?s = "mount creation_props"
  have v: "TaskSchema_safeParse example_TaskStatus (fieldValues ?s) = Inl [(''title'', too_small)]"
    by (simp add: TaskSchema_safeParse_def TaskSchema_issues_def example_defs)
  have e: "title (fieldValues ?s) = JStr []"
    by (simp add: example_defs)
  have o: "page_takes creation_props ?s (saveButton (Render creation_props ?s))"
    by (simp add: takes_save example_defs)
  from C2_invalid_draft_stays_local [of example_TaskStatus ?s creation_props, THEN conjunct1] v o
  have st: "step example_TaskStatus creation_props ?s submit_form =
     Some (?s\<lparr>fieldErrors := [(''title'', too_small)], isSubmitted := True\<rparr>, [])"
    by blast
  have i: "lifecycle (?s\<lparr>fieldErrors := [(''title'', too_small)], isSubmitted := True\<rparr>) = Idle"
    by (simp add: lifecycle_def mount_def)
  from v e o st i show ?thesis by blast
qed









section \<open>Submitting without the Save button\<close>

text \<open>
  Where no Save button is rendered, the Enter key in the title input still submits the form,
  and the submit handler reads no capability flag and no lifecycle flag. The three theorems of
  this section evaluate the component there. What the rendering does guarantee comes first.
\<close>

lemma handleSubmit_reads_no_capability:
  "handleSubmit ts (p\<lparr>canUpdate := u, canCreate := c, canDelete := d\<rparr>) s = handleSubmit ts p s"
  by (simp add: handleSubmit_def onSubmit_start_def split: sum.split)

lemma buttons_disabled_while_busy:
  assumes "isSaving s \<or> isDeleting s"
  shows "saveButton (Render p s) =
           (if (case task p of Some t \<Rightarrow> canUpdate p | None \<Rightarrow> canCreate p)
            then rendered_disabled else not_rendered)"
    and "deleteButton (Render p s) =
           (if task p \<noteq> None \<and> canDelete p then rendered_disabled else not_rendered)"
  using assms by (simp_all add: Render_def enabled_unless_def)

lemma delete_gated_by_canDelete:
  assumes "\<not> canDelete p"
  shows "deleteButton (Render p s) = not_rendered" and "\<not> alertDialogContent (Render p s)"
    and "step ts p s click_Delete = None" and "step ts p s click_Cancel = None"
    and "step ts p s click_Continue = None"
proof -
  from assms show "deleteButton (Render p s) = not_rendered" and "\<not> alertDialogContent (Render p s)"
    by (simp_all add: Render_def)
  from assms show "step ts p s click_Delete = None" and "step ts p s click_Cancel = None"
    and "step ts p s click_Continue = None"
    by (simp_all add: takes split: option.split)
qed

lemma settled_clears_own_flag:
  "step ts p s (createTask_settled r) = Some (s', effs) \<Longrightarrow> \<not> isSaving s'"
  "step ts p s (updateTask_settled r') = Some (s', effs) \<Longrightarrow> \<not> isSaving s'"
  "step ts p s (deleteTask_settled r') = Some (s', effs) \<Longrightarrow> \<not> isDeleting s'"
  by (auto simp: handler_defs split: if_splits Settled.splits)

lemma mount_edit_props_without_update: "mount edit_props_without_update = mount edit_props"
  by (simp add: example_defs)

lemma mount_creation_props_without_create: "mount creation_props_without_create = mount creation_props"
  by (simp add: example_defs)

lemma reachable_ship_report_idle_without_create:
  "reachable example_TaskStatus creation_props_without_create ship_report_idle"
proof -
  let ?p = "creation_props_without_create"
  let ?s0 = "mount ?p"
  let ?s1 = "?s0\<lparr>fieldValues := (fieldValues ?s0)\<lparr>title := JStr ''Ship report''\<rparr>\<rparr>"
  have r0: "reachable example_TaskStatus ?p ?s0" by (rule reachable.mounted)
  have "step example_TaskStatus ?p ?s0 (change_title ''Ship report'') = Some (?s1, [])"
    by (simp add: takes revalidated_def example_defs)
  from reachable.stepped [OF r0 this]
  have r1: "reachable example_TaskStatus ?p ?s1" .
  have "step example_TaskStatus ?p ?s1 (change_status ''InProgress'') = Some (ship_report_idle, [])"
    by (simp add: takes revalidated_def example_defs)
  from reachable.stepped [OF r1 this] show ?thesis .
qed

lemma run_delete_then_enter:
  "run example_TaskStatus edit_props_without_update (mount edit_props_without_update)
     [click_Delete, click_Continue, submit_form] =
   Some ([edit_confirming, edit_deleting, edit_deleting_and_saving],
         [Call (deleteTask ''7''), Call (updateTask ''7'' example_task_draft)])"
  by (simp add: takes handler_defs TaskSchema_safeParse_def TaskSchema_issues_def example_defs)

lemma reachable_edit_deleting_and_saving:
  "reachable example_TaskStatus edit_props_without_update edit_deleting_and_saving"
proof -
  let ?p = "edit_props_without_update"
  have r0: "reachable example_TaskStatus ?p (mount ?p)"
    by (rule reachable.mounted)
  have "step example_TaskStatus ?p (mount ?p) click_Delete = Some (edit_confirming, [])"
    by (simp add: takes example_defs)
  from reachable.stepped [OF r0 this]
  have r1: "reachable example_TaskStatus ?p edit_confirming" .
  have "step example_TaskStatus ?p edit_confirming click_Continue =
      Some (edit_deleting, [Call (deleteTask ''7'')])"
    by (simp add: takes handler_defs example_defs)
  from reachable.stepped [OF r1 this]
  have r2: "reachable example_TaskStatus ?p edit_deleting" .
  have "step example_TaskStatus ?p edit_deleting submit_form =
      Some (edit_deleting_and_saving, [Call (updateTask ''7'' example_task_draft)])"
    by (simp add: takes handler_defs TaskSchema_safeParse_def TaskSchema_issues_def example_defs)
  from reachable.stepped [OF r2 this] show ?thesis .
qed

text \<open>
  C6. The component at two inputs where the capability for Save is off. In creation mode
  without \<open>canCreate\<close>, with the draft of the spec's example typed in, no Save button is
  rendered, yet submitting the form calls \<open>createTask\<close> with the draft. In edit mode without
  \<open>canUpdate\<close>, no Save button is rendered, yet submitting the form right after mounting calls
  \<open>updateTask\<close> with the identity of the task.
\<close>

theorem C6_submit_without_capability:
  "task creation_props_without_create = None \<and> canCreate creation_props_without_create = False \<and>
   reachable example_TaskStatus creation_props_without_create ship_report_idle \<and>
   saveButton (Render creation_props_without_create ship_report_idle) = not_rendered \<and>
   step example_TaskStatus creation_props_without_create ship_report_idle submit_form =
     Some (ship_report_idle\<lparr>isSaving := True, pending := [awaiting_createTask]\<rparr>,
           [Call (createTask ship_report_draft)]) \<and>
   task edit_props_without_update = Some example_task \<and>
   canUpdate edit_props_without_update = False \<and>
   saveButton (Render edit_props_without_update (mount edit_props_without_update)) = not_rendered \<and>
   step example_TaskStatus edit_props_without_update (mount edit_props_without_update) submit_form =
     Some ((mount edit_props_without_update)\<lparr>isSaving := True, pending := [awaiting_updateTask]\<rparr>,
           [Call (updateTask ''7'' example_task_draft)])"
proof (intro conjI)
  show "reachable example_TaskStatus creation_props_without_create ship_report_idle"
    by (rule reachable_ship_report_idle_without_create)
  show "step example_TaskStatus creation_props_without_create ship_report_idle submit_form =
     Some (ship_report_idle\<lparr>isSaving := True, pending := [awaiting_createTask]\<rparr>,
           [Call (createTask ship_report_draft)])"
    by (simp add: takes handler_defs TaskSchema_safeParse_def TaskSchema_issues_def example_defs)
  show "step example_TaskStatus edit_props_without_update (mount edit_props_without_update) submit_form =
     Some ((mount edit_props_without_update)\<lparr>isSaving := True, pending := [awaiting_updateTask]\<rparr>,
           [Call (updateTask ''7'' example_task_draft)])"
    by (simp add: takes handler_defs TaskSchema_safeParse_def TaskSchema_issues_def example_defs)
qed (simp_all add: Render_def example_defs)

text \<open>
  C5. The component in edit mode without \<open>canUpdate\<close> and with \<open>canDelete\<close>. After Delete and
  Continue the lifecycle is deleting, the Delete button is disabled and no Save button is
  rendered; the title input is still enabled, and submitting the form from it calls
  \<open>updateTask\<close> while \<open>deleteTask\<close> is in flight. In the state reached, \<open>isSaving\<close> and
  \<open>isDeleting\<close> are both set and two gateway calls are in flight.
\<close>

theorem C5_submit_during_delete_overlaps:
  "run example_TaskStatus edit_props_without_update (mount edit_props_without_update)
     [click_Delete, click_Continue, submit_form] =
   Some ([edit_confirming, edit_deleting, edit_deleting_and_saving],
         [Call (deleteTask ''7''), Call (updateTask ''7'' example_task_draft)]) \<and>
   lifecycle edit_deleting = Deleting \<and>
   deleteButton (Render edit_props_without_update edit_deleting) = rendered_disabled \<and>
   saveButton (Render edit_props_without_update edit_deleting) = not_rendered \<and>
   titleInput (Render edit_props_without_update edit_deleting) = rendered_enabled \<and>
   reachable example_TaskStatus edit_props_without_update edit_deleting_and_saving \<and>
   isSaving edit_deleting_and_saving \<and> isDeleting edit_deleting_and_saving \<and>
   pending edit_deleting_and_saving = [awaiting_deleteTask, awaiting_updateTask]"
proof (intro conjI)
  show "run example_TaskStatus edit_props_without_update (mount edit_props_without_update)
     [click_Delete, click_Continue, submit_form] =
   Some ([edit_confirming, edit_deleting, edit_deleting_and_saving],
         [Call (deleteTask ''7''), Call (updateTask ''7'' example_task_draft)])"
    by (rule run_delete_then_enter)
  show "reachable example_TaskStatus edit_props_without_update edit_deleting_and_saving"
    by (rule reachable_edit_deleting_and_saving)
qed (simp_all add: lifecycle_def Render_def enabled_unless_def example_defs)

text \<open>
  C9. The component in the state reached above, with a Save and a Delete in flight together.
  When the \<open>updateTask\<close> call settles, resolved or rejected, a notification is emitted and
  \<open>isSaving\<close> is reset, but the lifecycle is deleting, not idle: each handler resets its own
  flag only.
\<close>

theorem C9_settled_save_leaves_deleting:
  "reachable example_TaskStatus edit_props_without_update edit_deleting_and_saving \<and>
   step example_TaskStatus edit_props_without_update edit_deleting_and_saving
       (updateTask_settled (Resolved ())) =
     Some (edit_deleting\<lparr>isSubmitted := True\<rparr>, [toast ''Task saved'' default_variant]) \<and>
   step example_TaskStatus edit_props_without_update edit_deleting_and_saving
       (updateTask_settled (Rejected RemoteError)) =
     Some (edit_deleting\<lparr>isSubmitted := True\<rparr>, [toast ''Error saving task'' destructive]) \<and>
   isSaving (edit_deleting\<lparr>isSubmitted := True\<rparr>) = False \<and>
   lifecycle (edit_deleting\<lparr>isSubmitted := True\<rparr>) = Deleting"
proof (intro conjI)
  show "reachable example_TaskStatus edit_props_without_update edit_deleting_and_saving"
    by (rule reachable_edit_deleting_and_saving)
qed (simp_all add: handler_defs lifecycle_def example_defs)

end
